theory Spec2Isabelle
  imports Main "HOL-Library.Finite_Map" "HOL-Library.Word"
begin

section \<open>Errors\<close>

text \<open>
  Go error values. The sentinel errors of package \<open>github\<close> (client.go) and of package
  \<open>validator\<close> (validator.go) are constructors of their own; \<open>OtherError\<close> is any error
  created elsewhere (transport, decoding), and \<open>Errorf prefix e\<close> is
  \<^verbatim>\<open>fmt.Errorf(prefix + "%w", e)\<close>, an error wrapping \<open>e\<close>.
\<close>

datatype go_error =
    github_ErrUnauthorized
  | github_ErrNotOrgMember
  | github_ErrRateLimited
  | ErrUnauthorized
  | ErrNotOrgMember
  | ErrClassicPAT
  | ErrRateLimited
  | OtherError string
  | Errorf string go_error

text \<open>\<^verbatim>\<open>errors.Is(err, target)\<close>: walks the chain of wrapped errors.\<close>

fun errors_Is :: "go_error \<Rightarrow> go_error \<Rightarrow> bool" where
  "errors_Is (Errorf p e) target = (Errorf p e = target \<or> errors_Is e target)"
| "errors_Is e target = (e = target)"

section \<open>Data model\<close>

text \<open>validator.ValidationResult (validator.go).\<close>

record ValidationResult =
  Login :: string
  ID :: "64 word"
  Email :: string
  Org :: string
  Teams :: "string list"

text \<open>The zero value \<^verbatim>\<open>validator.ValidationResult{}\<close>.\<close>

definition zeroResult :: ValidationResult where
  "zeroResult = \<lparr>Login = [], ID = 0, Email = [], Org = [], Teams = []\<rparr>"

text \<open>
  cache.Entry (cache.go). A \<^verbatim>\<open>time.Time\<close> is an integer number of nanoseconds on the
  clock's axis, so \<^verbatim>\<open>a.After(b)\<close> is \<open>b < a\<close>, \<^verbatim>\<open>a.Before(b)\<close> is \<open>a < b\<close> and
  \<^verbatim>\<open>t.Add(d)\<close> is \<open>t + d\<close>.
\<close>

record Entry =
  Result :: ValidationResult
  Err :: "go_error option"
  ExpiresAt :: int

text \<open>
  cache.Cache. The map is a finite map; the four OpenTelemetry instruments are the
  numbers they have accumulated; \<open>stop\<close> is whether the stop channel is closed.
\<close>

record Cache =
  ttl :: int
  maxSize :: int
  entries :: "(string, Entry) fmap"
  stop :: bool
  hits :: nat
  misses :: nat
  evictions :: nat
  entryGauge :: int

section \<open>The cache (internal/cache/cache.go)\<close>

text \<open>\<^verbatim>\<open>hex.EncodeToString\<close>: two lower-case hexadecimal digits per byte.\<close>

definition hexdigit :: "nat \<Rightarrow> char" where
  "hexdigit n = ''0123456789abcdef'' ! (n mod 16)"

fun hex_EncodeToString :: "string \<Rightarrow> string" where
  "hex_EncodeToString [] = []"
| "hex_EncodeToString (b # bs) =
     hexdigit (of_char b div 16) # hexdigit (of_char b mod 16) # hex_EncodeToString bs"

text \<open>
  hashToken. The digest \<^verbatim>\<open>sha256.Sum256\<close> belongs to the standard library and is the
  parameter \<open>Sum256\<close>.
\<close>

definition hashToken :: "(string \<Rightarrow> string) \<Rightarrow> string \<Rightarrow> string" where
  "hashToken Sum256 token = hex_EncodeToString (Sum256 token)"

text \<open>New. The goroutine it starts when \<open>ttl > 0\<close> is \<open>cleanupLoop\<close> below.\<close>

definition New :: "int \<Rightarrow> int \<Rightarrow> Cache" where
  "New t n = \<lparr>ttl = t, maxSize = n, entries = fmempty, stop = False,
              hits = 0, misses = 0, evictions = 0, entryGauge = 0\<rparr>"

text \<open>
  A \<^verbatim>\<open>range\<close> over a Go map visits every key once, in an order the language does not
  fix. The loops below take that order as the list \<open>ks\<close>; \<open>range_order ks m\<close> says that
  \<open>ks\<close> is such an order for the map \<open>m\<close>.
\<close>

definition range_order :: "string list \<Rightarrow> (string, Entry) fmap \<Rightarrow> bool" where
  "range_order ks m = (distinct ks \<and> set ks = fmdom' m)"

text \<open>
  removeExpired at time \<open>now\<close>. Deleting the key being visited does not disturb the
  visit of the others.
\<close>

fun removeExpired_loop :: "int \<Rightarrow> string list \<Rightarrow> Cache \<Rightarrow> Cache" where
  "removeExpired_loop now [] c = c"
| "removeExpired_loop now (key # ks) c =
     (case fmlookup (entries c) key of
        None \<Rightarrow> removeExpired_loop now ks c
      | Some entry \<Rightarrow>
          if ExpiresAt entry < now
          then removeExpired_loop now ks
                 (c\<lparr>entries := fmdrop key (entries c), entryGauge := entryGauge c - 1\<rparr>)
          else removeExpired_loop now ks c)"

definition removeExpired :: "int \<Rightarrow> string list \<Rightarrow> Cache \<Rightarrow> Cache" where
  "removeExpired now ks c = removeExpired_loop now ks c"

text \<open>
  cleanupLoop: the interval of the ticker (in nanoseconds), and the loop itself over
  the events it selects on, a closed stop channel or a tick at some time.
\<close>

definition second :: int where
  "second = 1000000000"

definition cleanup_interval :: "int \<Rightarrow> int" where
  "cleanup_interval t =
     (let interval = sgn t * (\<bar>t\<bar> div 2);
          interval = (if interval > 30 * second then 30 * second else interval)
      in if interval \<le> 0 then second else interval)"

datatype loop_event = StopClosed | Tick int "string list"

fun cleanupLoop :: "loop_event list \<Rightarrow> Cache \<Rightarrow> Cache" where
  "cleanupLoop [] c = c"
| "cleanupLoop (StopClosed # evs) c = c"
| "cleanupLoop (Tick now ks # evs) c = cleanupLoop evs (removeExpired now ks c)"

text \<open>Get at time \<open>now\<close>: the triple returned, and the cache with its counters.\<close>

definition Get ::
  "(string \<Rightarrow> string) \<Rightarrow> int \<Rightarrow> string \<Rightarrow> Cache
     \<Rightarrow> (ValidationResult \<times> go_error option \<times> bool) \<times> Cache" where
  "Get Sum256 now token c =
     (if ttl c = 0 then ((zeroResult, None, False), c\<lparr>misses := misses c + 1\<rparr>)
      else
        let key = hashToken Sum256 token in
        case fmlookup (entries c) key of
          None \<Rightarrow> ((zeroResult, None, False), c\<lparr>misses := misses c + 1\<rparr>)
        | Some entry \<Rightarrow>
            if ExpiresAt entry < now
            then ((zeroResult, None, False), c\<lparr>misses := misses c + 1\<rparr>)
            else ((Result entry, Err entry, True), c\<lparr>hits := hits c + 1\<rparr>))"

text \<open>
  evictOldest: the loop carries \<open>(oldestKey, oldestTime, first)\<close>; the zero
  \<^verbatim>\<open>time.Time\<close> it starts from is never compared, and is 0 here.
\<close>

fun evictOldest_loop ::
  "(string, Entry) fmap \<Rightarrow> string list \<Rightarrow> string \<times> int \<times> bool \<Rightarrow> string \<times> int \<times> bool" where
  "evictOldest_loop m [] acc = acc"
| "evictOldest_loop m (key # ks) (oldestKey, oldestTime, first) =
     (case fmlookup m key of
        None \<Rightarrow> evictOldest_loop m ks (oldestKey, oldestTime, first)
      | Some entry \<Rightarrow>
          if first \<or> ExpiresAt entry < oldestTime
          then evictOldest_loop m ks (key, ExpiresAt entry, False)
          else evictOldest_loop m ks (oldestKey, oldestTime, first))"

definition evictOldest :: "string list \<Rightarrow> Cache \<Rightarrow> Cache" where
  "evictOldest ks c =
     (case evictOldest_loop (entries c) ks ([], 0, True) of
        (oldestKey, oldestTime, first) \<Rightarrow>
          if \<not> first
          then c\<lparr>entries := fmdrop oldestKey (entries c),
                 entryGauge := entryGauge c - 1,
                 evictions := evictions c + 1\<rparr>
          else c)"

text \<open>\<^verbatim>\<open>len(m)\<close> of a map, and Len.\<close>

definition len :: "(string, Entry) fmap \<Rightarrow> int" where
  "len m = int (fcard (fmdom m))"

definition Len :: "Cache \<Rightarrow> int" where
  "Len c = len (entries c)"

text \<open>Set at time \<open>now\<close>; \<open>ks\<close> is the order of the range in evictOldest.\<close>

definition Set ::
  "(string \<Rightarrow> string) \<Rightarrow> int \<Rightarrow> string list \<Rightarrow> string \<Rightarrow> ValidationResult
     \<Rightarrow> go_error option \<Rightarrow> Cache \<Rightarrow> Cache" where
  "Set Sum256 now ks token result err c =
     (if ttl c = 0 then c
      else
        let key = hashToken Sum256 token;
            exists = (fmlookup (entries c) key \<noteq> None);
            c1 = (if \<not> exists \<and> maxSize c > 0 \<and> len (entries c) \<ge> maxSize c
                  then evictOldest ks c else c);
            c2 = c1\<lparr>entries :=
                      fmupd key \<lparr>Result = result, Err = err, ExpiresAt = now + ttl c\<rparr>
                        (entries c1)\<rparr>
        in if \<not> exists then c2\<lparr>entryGauge := entryGauge c2 + 1\<rparr> else c2)"

text \<open>Delete.\<close>

definition Delete :: "(string \<Rightarrow> string) \<Rightarrow> string \<Rightarrow> Cache \<Rightarrow> Cache" where
  "Delete Sum256 token c =
     (let key = hashToken Sum256 token in
      if fmlookup (entries c) key \<noteq> None
      then c\<lparr>entries := fmdrop key (entries c), entryGauge := entryGauge c - 1\<rparr>
      else c)"

text \<open>Stop: closes the stop channel unless it is closed already.\<close>

definition Stop :: "Cache \<Rightarrow> Cache" where
  "Stop c = (if stop c then c else c\<lparr>stop := True\<rparr>)"

section \<open>The GitHub client (internal/github)\<close>

text \<open>
  github.User, github.Organization and github.Team. Validate reads \<^verbatim>\<open>user.Email\<close>, so
  the user has that field beside the two that types.go lists.
\<close>

record User =
  User_Login :: string
  User_ID :: "64 word"
  User_Email :: string

record Organization =
  Organization_Login :: string

record Team =
  Slug :: string
  Organization :: Organization

text \<open>
  The interface github.Client: what each method returns for its arguments (the context
  apart). A \<^verbatim>\<open>*User\<close> may be nil, an \<^verbatim>\<open>error\<close> may be nil.
\<close>

record Client =
  GetUser :: "string \<Rightarrow> User option \<times> bool \<times> go_error option"
  CheckOrgMembership :: "string \<Rightarrow> string \<Rightarrow> string \<Rightarrow> go_error option"
  ListUserTeams :: "string \<Rightarrow> string \<Rightarrow> Team list \<times> go_error option"

text \<open>
  HTTPClient.ListUserTeams. \<open>fetchTeamsPage i url\<close> is what the \<open>i\<close>-th request of the
  call, to \<open>url\<close>, gives: the teams of the page, the URL of the next page (empty when
  there is none) and the error. The server decides whether the pages end, so the loop
  is a partial function: \<open>None\<close> is a call that never returns. \<^verbatim>\<open>strings.EqualFold\<close>
  belongs to the standard library and is the parameter \<open>EqualFold\<close>.
\<close>

partial_function (option) ListUserTeams_loop ::
  "(nat \<Rightarrow> string \<Rightarrow> Team list \<times> string \<times> go_error option) \<Rightarrow> nat \<Rightarrow> string
     \<Rightarrow> Team list \<Rightarrow> (Team list \<times> go_error option) option" where
  "ListUserTeams_loop fetchTeamsPage i nextURL allTeams =
     (if nextURL = [] then Some (allTeams, None)
      else
        case fetchTeamsPage i nextURL of
          (teams, next, err) \<Rightarrow>
            (case err of
               Some e \<Rightarrow> Some ([], Some e)
             | None \<Rightarrow> ListUserTeams_loop fetchTeamsPage (Suc i) next (allTeams @ teams)))"

definition HTTPClient_ListUserTeams ::
  "(string \<Rightarrow> string \<Rightarrow> bool) \<Rightarrow> string
     \<Rightarrow> (string \<Rightarrow> nat \<Rightarrow> string \<Rightarrow> Team list \<times> string \<times> go_error option)
     \<Rightarrow> string \<Rightarrow> string \<Rightarrow> (Team list \<times> go_error option) option" where
  "HTTPClient_ListUserTeams EqualFold baseURL fetchTeamsPage token org =
     (case ListUserTeams_loop (fetchTeamsPage token) 0
             (baseURL @ ''/user/teams'' @ ''?per_page=100'') [] of
        None \<Rightarrow> None
      | Some (allTeams, Some e) \<Rightarrow> Some ([], Some e)
      | Some (allTeams, None) \<Rightarrow>
          Some (filter (\<lambda>t. EqualFold (Organization_Login (Organization t)) org) allTeams,
                None))"

section \<open>The validator (internal/validator/validator.go)\<close>

text \<open>
  The interface validator.Cache over a cache state \<open>'s\<close>: Get returns the triple and the
  state, Set and Delete return the state.
\<close>

record 's validator_Cache =
  cache_Get :: "string \<Rightarrow> 's \<Rightarrow> (ValidationResult \<times> go_error option \<times> bool) \<times> 's"
  cache_Set :: "string \<Rightarrow> ValidationResult \<Rightarrow> go_error option \<Rightarrow> 's \<Rightarrow> 's"
  cache_Delete :: "string \<Rightarrow> 's \<Rightarrow> 's"

text \<open>validator.Validator, its logger and instruments left out.\<close>

record 's Validator =
  github :: Client
  cache :: "'s validator_Cache"
  org :: string
  rejectClassicPATs :: bool

text \<open>The calls Validate makes on the client, in order.\<close>

datatype client_call =
    Call_GetUser string
  | Call_CheckOrgMembership string string string
  | Call_ListUserTeams string string

text \<open>
  What Validate does: it returns a result (nil or not) and an error (nil or not), or it
  panics on \<^verbatim>\<open>user.Login\<close> when the client returned a nil user with a nil error.
\<close>

datatype outcome =
    Return "ValidationResult option" "go_error option"
  | Panic

text \<open>Validate: the outcome, the cache state afterwards and the client calls made.\<close>

definition Validate ::
  "'s Validator \<Rightarrow> string \<Rightarrow> 's \<Rightarrow> outcome \<times> 's \<times> client_call list" where
  "Validate v token s =
     (case cache_Get (cache v) token s of
        ((result, cachedErr, ok), s1) \<Rightarrow>
          if ok then
            (case cachedErr of
               Some e \<Rightarrow> (Return None (Some e), s1, [])
             | None \<Rightarrow> (Return (Some result) None, s1, []))
          else
            (case GetUser (github v) token of
               (user, isClassicPAT, err) \<Rightarrow>
                 let calls1 = [Call_GetUser token] in
                 (case err of
                    Some e \<Rightarrow>
                      if errors_Is e github_ErrRateLimited
                      then (Return None (Some (Errorf [] ErrRateLimited)), s1, calls1)
                      else if errors_Is e github_ErrUnauthorized
                      then (Return None (Some (Errorf [] ErrUnauthorized)),
                            cache_Set (cache v) token zeroResult (Some ErrUnauthorized) s1,
                            calls1)
                      else (Return None (Some (Errorf ''getting user: '' e)), s1, calls1)
                  | None \<Rightarrow>
                      (case user of
                         None \<Rightarrow> (Panic, s1, calls1)
                       | Some u \<Rightarrow>
                           if rejectClassicPATs v \<and> isClassicPAT
                           then (Return None (Some (Errorf [] ErrClassicPAT)), s1, calls1)
                           else
                             let calls2 = calls1 @
                                   [Call_CheckOrgMembership token (org v) (User_Login u)] in
                             (case CheckOrgMembership (github v) token (org v) (User_Login u) of
                                Some e \<Rightarrow>
                                  if errors_Is e github_ErrRateLimited
                                  then (Return None (Some (Errorf [] ErrRateLimited)), s1, calls2)
                                  else if errors_Is e github_ErrNotOrgMember
                                  then (Return None (Some (Errorf [] ErrNotOrgMember)), s1, calls2)
                                  else (Return None
                                          (Some (Errorf ''checking org membership: '' e)),
                                        s1, calls2)
                              | None \<Rightarrow>
                                  let calls3 = calls2 @ [Call_ListUserTeams token (org v)] in
                                  (case ListUserTeams (github v) token (org v) of
                                     (teams, Some e) \<Rightarrow>
                                       if errors_Is e github_ErrRateLimited
                                       then (Return None (Some (Errorf [] ErrRateLimited)),
                                             s1, calls3)
                                       else (Return None
                                               (Some (Errorf ''listing user teams: '' e)),
                                             s1, calls3)
                                   | (teams, None) \<Rightarrow>
                                       let teamSlugs = map Slug teams;
                                           result = \<lparr>Login = User_Login u, ID = User_ID u,
                                                     Email = User_Email u, Org = org v,
                                                     Teams = teamSlugs\<rparr>
                                       in (Return (Some result) None,
                                           cache_Set (cache v) token result None s1,
                                           calls3)))))))"

text \<open>
  cache.Cache as a validator.Cache, as main wires it: the Get of the call happens at
  time \<open>now_get\<close>, its Set at time \<open>now_set\<close> with the range order \<open>ks\<close>.
\<close>

definition Cache_impl ::
  "(string \<Rightarrow> string) \<Rightarrow> int \<Rightarrow> int \<Rightarrow> string list \<Rightarrow> Cache validator_Cache" where
  "Cache_impl Sum256 now_get now_set ks =
     \<lparr>cache_Get = Get Sum256 now_get,
      cache_Set = Set Sum256 now_set ks,
      cache_Delete = Delete Sum256\<rparr>"

section \<open>Runs of the cache\<close>

text \<open>
  The states a cache built by \<open>New t n\<close> can reach: by the exported methods, by a tick
  of the clean-up loop, and by evictOldest, each loop ranging over the map in some
  order.
\<close>

inductive reachable :: "(string \<Rightarrow> string) \<Rightarrow> int \<Rightarrow> int \<Rightarrow> Cache \<Rightarrow> bool"
  for Sum256 :: "string \<Rightarrow> string" and t :: int and n :: int where
  r_New: "reachable Sum256 t n (New t n)"
| r_Get: "reachable Sum256 t n c \<Longrightarrow> reachable Sum256 t n (snd (Get Sum256 now token c))"
| r_Set: "reachable Sum256 t n c \<Longrightarrow> range_order ks (entries c) \<Longrightarrow>
          reachable Sum256 t n (Set Sum256 now ks token result err c)"
| r_Delete: "reachable Sum256 t n c \<Longrightarrow> reachable Sum256 t n (Delete Sum256 token c)"
| r_sweep: "reachable Sum256 t n c \<Longrightarrow> range_order ks (entries c) \<Longrightarrow>
            reachable Sum256 t n (removeExpired now ks c)"
| r_evict: "reachable Sum256 t n c \<Longrightarrow> range_order ks (entries c) \<Longrightarrow>
            reachable Sum256 t n (evictOldest ks c)"
| r_Stop: "reachable Sum256 t n c \<Longrightarrow> reachable Sum256 t n (Stop c)"

text \<open>
  A run of Set calls, each with its time, the range order of its eviction, its token and
  its outcome; \<open>range_orders\<close> says that every order given fits the map it ranges over,
  and \<open>keys_of\<close> lists the keys the run stores under.
\<close>

fun Set_all ::
  "(string \<Rightarrow> string) \<Rightarrow> (int \<times> string list \<times> string \<times> ValidationResult \<times> go_error option) list
     \<Rightarrow> Cache \<Rightarrow> Cache" where
  "Set_all Sum256 [] c = c"
| "Set_all Sum256 ((now, ks, token, result, err) # ops) c =
     Set_all Sum256 ops (Set Sum256 now ks token result err c)"

fun range_orders ::
  "(string \<Rightarrow> string) \<Rightarrow> (int \<times> string list \<times> string \<times> ValidationResult \<times> go_error option) list
     \<Rightarrow> Cache \<Rightarrow> bool" where
  "range_orders Sum256 [] c = True"
| "range_orders Sum256 ((now, ks, token, result, err) # ops) c =
     (range_order ks (entries c) \<and>
      range_orders Sum256 ops (Set Sum256 now ks token result err c))"

definition keys_of ::
  "(string \<Rightarrow> string) \<Rightarrow> (int \<times> string list \<times> string \<times> ValidationResult \<times> go_error option) list
     \<Rightarrow> string list" where
  "keys_of Sum256 ops = map (\<lambda>(now, ks, token, result, err). hashToken Sum256 token) ops"

section \<open>Example states\<close>

text \<open>
  A digest for the examples: the identity, so that the key of \<open>''a''\<close> is \<open>''61''\<close>.
  \<open>cache_a\<close> holds the token \<open>''a''\<close>, stored at time 0 with a TTL of 10;
  \<open>cache_ab\<close> holds \<open>''b''\<close> as well, stored at time 1, and is full.
\<close>

definition cache_a :: Cache where
  "cache_a = Set id 0 [] ''a'' zeroResult None (New 10 2)"

definition entry_a :: Entry where
  "entry_a = \<lparr>Result = zeroResult, Err = None, ExpiresAt = 10\<rparr>"

definition entry_b :: Entry where
  "entry_b = \<lparr>Result = zeroResult, Err = None, ExpiresAt = 11\<rparr>"

definition cache_ab :: Cache where
  "cache_ab = Set id 1 [''61''] ''b'' zeroResult None cache_a"

definition result_userA :: ValidationResult where
  "result_userA = \<lparr>Login = ''userA'', ID = 7, Email = ''a@example.com'', Org = ''acme'',
                    Teams = [''platform'', ''security'', ''sre'']\<rparr>"

definition user_a :: User where
  "user_a = \<lparr>User_Login = ''userA'', User_ID = 7, User_Email = ''a@example.com''\<rparr>"

text \<open>
  A client that answers every call with the same values, as the mock of the tests does,
  and a validator over it and over a cache whose Get and Set happen at the given times.
\<close>

definition stub_client ::
  "User option \<times> bool \<times> go_error option \<Rightarrow> go_error option \<Rightarrow> Team list \<times> go_error option
     \<Rightarrow> Client" where
  "stub_client gu co lt =
     \<lparr>GetUser = (\<lambda>token. gu),
      CheckOrgMembership = (\<lambda>token orgname username. co),
      ListUserTeams = (\<lambda>token orgname. lt)\<rparr>"

definition stub_validator :: "Client \<Rightarrow> int \<Rightarrow> int \<Rightarrow> Cache Validator" where
  "stub_validator cl now_get now_set =
     \<lparr>github = cl, cache = Cache_impl id now_get now_set [], org = ''acme'',
      rejectClassicPATs = True\<rparr>"

text \<open>
  A folding of ASCII letters for the examples, four teams of which three are of the
  organization \<open>acme\<close> up to case, and a server that gives them on two pages.
\<close>

definition ascii_lower :: "char \<Rightarrow> char" where
  "ascii_lower ch =
     (case map_of (zip ''ABCDEFGHIJKLMNOPQRSTUVWXYZ'' ''abcdefghijklmnopqrstuvwxyz'') ch of
        Some l \<Rightarrow> l
      | None \<Rightarrow> ch)"

definition ascii_EqualFold :: "string \<Rightarrow> string \<Rightarrow> bool" where
  "ascii_EqualFold a b = (map ascii_lower a = map ascii_lower b)"

definition team_platform :: Team where
  "team_platform = \<lparr>Slug = ''platform'', Organization = \<lparr>Organization_Login = ''acme''\<rparr>\<rparr>"
definition team_docs :: Team where
  "team_docs = \<lparr>Slug = ''docs'', Organization = \<lparr>Organization_Login = ''other''\<rparr>\<rparr>"
definition team_security :: Team where
  "team_security = \<lparr>Slug = ''security'', Organization = \<lparr>Organization_Login = ''ACME''\<rparr>\<rparr>"
definition team_sre :: Team where
  "team_sre = \<lparr>Slug = ''sre'', Organization = \<lparr>Organization_Login = ''Acme''\<rparr>\<rparr>"

definition two_pages :: "string \<Rightarrow> nat \<Rightarrow> string \<Rightarrow> Team list \<times> string \<times> go_error option" where
  "two_pages token i url =
     (if i = 0 then ([team_platform, team_docs, team_security], ''next'', None)
      else ([team_sre], [], None))"

section \<open>Lemmas on the cache\<close>

lemma removeExpired_loop_fields:
  "ttl (removeExpired_loop now ks c) = ttl c \<and> maxSize (removeExpired_loop now ks c) = maxSize c"
  by (induction ks arbitrary: c) (auto split: option.splits)

lemma removeExpired_loop_lookup:
  "fmlookup (entries (removeExpired_loop now ks c)) k =
     (case fmlookup (entries c) k of
        None \<Rightarrow> None
      | Some e \<Rightarrow> if k \<in> set ks \<and> ExpiresAt e < now then None else Some e)"
  by (induction ks arbitrary: c) (auto split: option.splits)

lemma evictOldest_loop_spec:
  "evictOldest_loop m ks (k0, t0, f0) = (k1, t1, f1) \<Longrightarrow>
     (f1 \<longleftrightarrow> f0 \<and> (\<forall>k\<in>set ks. fmlookup m k = None)) \<and>
     (\<not> f1 \<longrightarrow>
        ((\<not> f0 \<and> k1 = k0 \<and> t1 = t0) \<or>
         (k1 \<in> set ks \<and> (\<exists>e. fmlookup m k1 = Some e \<and> ExpiresAt e = t1))) \<and>
        (\<not> f0 \<longrightarrow> t1 \<le> t0) \<and>
        (\<forall>k\<in>set ks. \<forall>e. fmlookup m k = Some e \<longrightarrow> t1 \<le> ExpiresAt e))"
proof (induction m ks "(k0, t0, f0)" arbitrary: k0 t0 f0 rule: evictOldest_loop.induct)
  case (1 m acc)
  then show ?case by auto
next
  case (2 m key ks oldestKey oldestTime first)
  show ?case
  proof (cases "fmlookup m key")
    case None
    with 2 show ?thesis by auto
  next
    case (Some entry)
    show ?thesis
    proof (cases "first \<or> ExpiresAt entry < oldestTime")
      case True
      with Some 2(4) have "evictOldest_loop m ks (key, ExpiresAt entry, False) = (k1, t1, f1)"
        by simp
      from 2(2)[OF Some True this] Some True show ?thesis by auto
    next
      case False
      with Some 2(4) have "evictOldest_loop m ks (oldestKey, oldestTime, first) = (k1, t1, f1)"
        by simp
      from 2(3)[OF Some False this] Some False show ?thesis by auto
    qed
  qed
qed

lemma len_fmupd:
  "len (fmupd k v m) = (if fmlookup m k = None then len m + 1 else len m)"
  by (auto simp: len_def fcard_finsert_if fmlookup_dom_iff)

lemma len_fmdrop:
  "len (fmdrop k m) = (if fmlookup m k = None then len m else len m - 1)"
proof (cases "fmlookup m k")
  case None
  then show ?thesis by (simp add: fmdrop_idle fmdom_notI)
next
  case (Some e)
  then have "k |\<in>| fmdom m" by (rule fmdomI)
  then have "Suc (fcard (fmdom m |-| {|k|})) = fcard (fmdom m)" by (rule fcard_Suc_fminus1)
  with Some show ?thesis by (simp add: len_def)
qed

lemma len_nonneg: "0 \<le> len m"
  by (simp add: len_def)

lemma len_pos_iff: "0 < len m \<longleftrightarrow> (\<exists>k e. fmlookup m k = Some e)"
proof -
  have "fcard (fmdom m) = 0 \<longleftrightarrow> fmdom m = {||}" by (rule fcard_0_eq)
  then have "0 < len m \<longleftrightarrow> fmdom m \<noteq> {||}" unfolding len_def by linarith
  also have "\<dots> \<longleftrightarrow> (\<exists>k. k |\<in>| fmdom m)" by auto
  also have "\<dots> \<longleftrightarrow> (\<exists>k e. fmlookup m k = Some e)" by (simp add: fmlookup_dom_iff)
  finally show ?thesis .
qed

lemma evictOldest_earliest:
  assumes ord: "range_order ks (entries c)" and ne: "0 < len (entries c)"
  shows "\<exists>k e. fmlookup (entries c) k = Some e \<and>
           (\<forall>k' e'. fmlookup (entries c) k' = Some e' \<longrightarrow> ExpiresAt e \<le> ExpiresAt e') \<and>
           evictOldest ks c = c\<lparr>entries := fmdrop k (entries c),
                                entryGauge := entryGauge c - 1,
                                evictions := evictions c + 1\<rparr>"
proof -
  obtain k1 t1 f1 where loop: "evictOldest_loop (entries c) ks ([], 0, True) = (k1, t1, f1)"
    by (cases "evictOldest_loop (entries c) ks ([], 0, True)") auto
  note spec = evictOldest_loop_spec[OF loop]
  from ne obtain k0 e0 where k0: "fmlookup (entries c) k0 = Some e0"
    by (auto simp: len_pos_iff)
  with ord have "k0 \<in> set ks" by (auto simp: range_order_def fmlookup_dom'_iff)
  with k0 spec have nf: "\<not> f1" by auto
  with spec obtain e1 where e1: "fmlookup (entries c) k1 = Some e1" "ExpiresAt e1 = t1"
    by auto
  have least: "\<forall>k' e'. fmlookup (entries c) k' = Some e' \<longrightarrow> ExpiresAt e1 \<le> ExpiresAt e'"
  proof (intro allI impI)
    fix k' e' assume l: "fmlookup (entries c) k' = Some e'"
    with ord have "k' \<in> set ks" by (auto simp: range_order_def fmlookup_dom'_iff)
    with l spec nf e1 show "ExpiresAt e1 \<le> ExpiresAt e'" by auto
  qed
  from loop nf have "evictOldest ks c = c\<lparr>entries := fmdrop k1 (entries c),
                                entryGauge := entryGauge c - 1,
                                evictions := evictions c + 1\<rparr>"
    by (simp add: evictOldest_def)
  with e1(1) least show ?thesis by blast
qed

lemma evictOldest_fields:
  "ttl (evictOldest ks c) = ttl c \<and> maxSize (evictOldest ks c) = maxSize c \<and>
   stop (evictOldest ks c) = stop c"
  by (simp add: evictOldest_def split: prod.splits)

lemma evictOldest_len_le: "len (entries (evictOldest ks c)) \<le> len (entries c)"
  by (auto simp: evictOldest_def len_fmdrop split: prod.splits)

lemma Set_existing:
  assumes "ttl c \<noteq> 0" "fmlookup (entries c) (hashToken Sum256 token) = Some e0"
  shows "Set Sum256 now ks token result err c =
           c\<lparr>entries := fmupd (hashToken Sum256 token)
                          \<lparr>Result = result, Err = err, ExpiresAt = now + ttl c\<rparr> (entries c)\<rparr>"
  using assms by (simp add: Set_def Let_def)

lemma Set_new_below:
  assumes "ttl c \<noteq> 0" "fmlookup (entries c) (hashToken Sum256 token) = None"
    "\<not> (0 < maxSize c \<and> maxSize c \<le> len (entries c))"
  shows "Set Sum256 now ks token result err c =
           c\<lparr>entries := fmupd (hashToken Sum256 token)
                          \<lparr>Result = result, Err = err, ExpiresAt = now + ttl c\<rparr> (entries c),
             entryGauge := entryGauge c + 1\<rparr>"
  using assms by (auto simp add: Set_def Let_def)

lemma Set_new_full:
  assumes "ttl c \<noteq> 0" "fmlookup (entries c) (hashToken Sum256 token) = None"
    "0 < maxSize c" "maxSize c \<le> len (entries c)" "range_order ks (entries c)"
  shows "\<exists>k e. fmlookup (entries c) k = Some e \<and>
           (\<forall>k' e'. fmlookup (entries c) k' = Some e' \<longrightarrow> ExpiresAt e \<le> ExpiresAt e') \<and>
           Set Sum256 now ks token result err c =
           c\<lparr>entries := fmupd (hashToken Sum256 token)
                          \<lparr>Result = result, Err = err, ExpiresAt = now + ttl c\<rparr>
                          (fmdrop k (entries c)),
             entryGauge := entryGauge c,
             evictions := evictions c + 1\<rparr>"
proof -
  from assms(3,4) have "0 < len (entries c)" by simp
  from evictOldest_earliest[OF assms(5) this] obtain k e where
    k: "fmlookup (entries c) k = Some e"
       "\<forall>k' e'. fmlookup (entries c) k' = Some e' \<longrightarrow> ExpiresAt e \<le> ExpiresAt e'"
       "evictOldest ks c = c\<lparr>entries := fmdrop k (entries c),
                                entryGauge := entryGauge c - 1,
                                evictions := evictions c + 1\<rparr>" by blast
  from assms(1-4) k(3) have "Set Sum256 now ks token result err c =
           c\<lparr>entries := fmupd (hashToken Sum256 token)
                          \<lparr>Result = result, Err = err, ExpiresAt = now + ttl c\<rparr>
                          (fmdrop k (entries c)),
             entryGauge := entryGauge c,
             evictions := evictions c + 1\<rparr>"
    by (simp add: Set_def Let_def)
  with k(1,2) show ?thesis by blast
qed

lemma Set_fields:
  "ttl (Set Sum256 now ks token result err c) = ttl c \<and>
   maxSize (Set Sum256 now ks token result err c) = maxSize c"
  by (simp add: Set_def Let_def evictOldest_fields)

lemma Set_lookup_same:
  assumes "ttl c \<noteq> 0"
  shows "fmlookup (entries (Set Sum256 now ks token result err c)) (hashToken Sum256 token) =
           Some \<lparr>Result = result, Err = err, ExpiresAt = now + ttl c\<rparr>"
  using assms by (simp add: Set_def Let_def)

lemma Get_after_Set:
  assumes "ttl c \<noteq> 0" and "now_get \<le> now_set + ttl c"
  shows "fst (Get Sum256 now_get token (Set Sum256 now_set ks token result err c)) =
           (result, err, True)"
  using assms Set_lookup_same[OF assms(1), of Sum256 now_set ks token result err]
  by (simp add: Get_def Set_fields)

lemma Get_state:
  "entries (snd (Get Sum256 now token c)) = entries c \<and>
   ttl (snd (Get Sum256 now token c)) = ttl c \<and>
   maxSize (snd (Get Sum256 now token c)) = maxSize c \<and>
   evictions (snd (Get Sum256 now token c)) = evictions c"
  by (simp add: Get_def Let_def split: option.splits)

lemma Get_miss_later:
  assumes "snd (snd (fst (Get Sum256 now token c))) = False" and "now \<le> now'"
    and "entries c' = entries c" and "ttl c' = ttl c"
  shows "fst (Get Sum256 now' token c') = (zeroResult, None, False)"
  using assms by (auto simp: Get_def Let_def split: option.splits if_splits)

lemma removeExpired_loop_len: "len (entries (removeExpired_loop now ks c)) \<le> len (entries c)"
proof (induction ks arbitrary: c)
  case Nil
  then show ?case by simp
next
  case (Cons key ks)
  show ?case
  proof (cases "fmlookup (entries c) key")
    case None
    with Cons show ?thesis by simp
  next
    case (Some entry)
    show ?thesis
    proof (cases "ExpiresAt entry < now")
      case True
      let ?c' = "c\<lparr>entries := fmdrop key (entries c), entryGauge := entryGauge c - 1\<rparr>"
      have "len (entries (removeExpired_loop now ks ?c')) \<le> len (entries ?c')" by (rule Cons.IH)
      also have "\<dots> \<le> len (entries c)" by (simp add: len_fmdrop)
      finally show ?thesis using Some True by simp
    next
      case False
      with Some Cons show ?thesis by simp
    qed
  qed
qed

lemma Set_new_len:
  assumes "ttl c \<noteq> 0" "fmlookup (entries c) (hashToken Sum256 token) = None"
    "0 < maxSize c" "len (entries c) \<le> maxSize c" "range_order ks (entries c)"
  shows "fmdom' (entries (Set Sum256 now ks token result err c)) \<subseteq>
           insert (hashToken Sum256 token) (fmdom' (entries c)) \<and>
         len (entries (Set Sum256 now ks token result err c)) =
           min (maxSize c) (len (entries c) + 1)"
proof (cases "maxSize c \<le> len (entries c)")
  case True
  from Set_new_full[OF assms(1,2,3) True assms(5), of now result err]
  obtain k e where e: "fmlookup (entries c) k = Some e"
    and eq: "Set Sum256 now ks token result err c =
           c\<lparr>entries := fmupd (hashToken Sum256 token)
                          \<lparr>Result = result, Err = err, ExpiresAt = now + ttl c\<rparr>
                          (fmdrop k (entries c)),
             entryGauge := entryGauge c,
             evictions := evictions c + 1\<rparr>" by blast
  from e assms(2) have "k \<noteq> hashToken Sum256 token" by auto
  with eq e assms(2,4) True show ?thesis by (auto simp: len_fmupd len_fmdrop)
next
  case False
  then have "\<not> (0 < maxSize c \<and> maxSize c \<le> len (entries c))" by simp
  from Set_new_below[OF assms(1,2) this, of now ks result err] assms(2) False
  show ?thesis by (auto simp: len_fmupd)
qed

lemma Set_len_bound:
  assumes "0 < maxSize c" "len (entries c) \<le> maxSize c" "range_order ks (entries c)"
  shows "len (entries (Set Sum256 now ks token result err c)) \<le> maxSize c"
proof (cases "ttl c = 0")
  case True
  with assms show ?thesis by (simp add: Set_def)
next
  case nz: False
  show ?thesis
  proof (cases "fmlookup (entries c) (hashToken Sum256 token)")
    case (Some e0)
    from Set_existing[OF nz Some, of now ks result err] Some assms(2)
    show ?thesis by (simp add: len_fmupd)
  next
    case None
    from Set_new_len[OF nz None assms, of now result err] show ?thesis by simp
  qed
qed

lemma reachable_inv:
  assumes "reachable Sum256 t n c"
  shows "ttl c = t \<and> maxSize c = n \<and> (0 < n \<longrightarrow> len (entries c) \<le> n)"
  using assms
proof (induction rule: reachable.induct)
  case r_New
  show ?case by (simp add: New_def len_def fcard_fempty)
next
  case (r_Get c now token)
  then show ?case by (auto simp: Get_def Let_def split: option.splits)
next
  case (r_Set c ks now token result err)
  then show ?case using Set_len_bound[of c ks Sum256 now token result err]
    by (auto simp: Set_fields)
next
  case (r_Delete c token)
  then show ?case by (auto simp: Delete_def Let_def len_fmdrop)
next
  case (r_sweep c ks now)
  then show ?case using removeExpired_loop_len[of now ks c]
    by (auto simp: removeExpired_def removeExpired_loop_fields)
next
  case (r_evict c ks)
  then show ?case using evictOldest_len_le[of ks c] by (auto simp: evictOldest_fields)
next
  case (r_Stop c)
  then show ?case by (simp add: Stop_def)
qed

lemma Set_all_len:
  assumes "ttl c \<noteq> 0" "0 < maxSize c" "len (entries c) \<le> maxSize c"
    "range_orders Sum256 ops c" "distinct (keys_of Sum256 ops)"
    "set (keys_of Sum256 ops) \<inter> fmdom' (entries c) = {}"
  shows "len (entries (Set_all Sum256 ops c)) = min (maxSize c) (len (entries c) + int (length ops))"
  using assms
proof (induction ops arbitrary: c)
  case Nil
  then show ?case by simp
next
  case (Cons op ops)
  obtain now ks token result err where op: "op = (now, ks, token, result, err)"
    by (cases op) auto
  let ?c' = "Set Sum256 now ks token result err c"
  from Cons.prems(6) op have new: "fmlookup (entries c) (hashToken Sum256 token) = None"
    by (auto simp: keys_of_def fmlookup_dom'_iff)
  from Cons.prems(4) op have ord: "range_order ks (entries c)" by simp
  note step = Set_new_len[OF Cons.prems(1) new Cons.prems(2,3) ord, of now result err]
  have f: "ttl ?c' \<noteq> 0" "0 < maxSize ?c'" "maxSize ?c' = maxSize c"
    using Cons.prems(1,2) by (simp_all add: Set_fields)
  have le: "len (entries ?c') \<le> maxSize ?c'" using step f by simp
  have ords: "range_orders Sum256 ops ?c'" using Cons.prems(4) op by simp
  have dist: "distinct (keys_of Sum256 ops)" using Cons.prems(5) by (simp add: keys_of_def)
  have "hashToken Sum256 token \<notin> set (keys_of Sum256 ops)"
    using Cons.prems(5) op by (simp add: keys_of_def)
  moreover have "set (keys_of Sum256 ops) \<inter> fmdom' (entries c) = {}"
    using Cons.prems(6) by (auto simp: keys_of_def)
  ultimately have disj: "set (keys_of Sum256 ops) \<inter> fmdom' (entries ?c') = {}"
    using step by auto
  from Cons.IH[OF f(1) f(2) le ords dist disj]
  have "len (entries (Set_all Sum256 ops ?c')) =
          min (maxSize c) (len (entries ?c') + int (length ops))" by (simp add: f)
  with step op show ?case by (simp add: min_def)
qed

lemma hashToken_id_a: "hashToken id ''a'' = ''61''"
  by (simp add: hashToken_def hexdigit_def)

lemma hashToken_id_b: "hashToken id ''b'' = ''62''"
  by (simp add: hashToken_def hexdigit_def)

lemma hashToken_id_c: "hashToken id ''c'' = ''63''"
  by (simp add: hashToken_def hexdigit_def)

lemma cache_a_eq:
  "cache_a = \<lparr>ttl = 10, maxSize = 2, entries = fmupd ''61'' entry_a fmempty, stop = False,
              hits = 0, misses = 0, evictions = 0, entryGauge = 1\<rparr>"
  by (simp add: cache_a_def Set_def New_def Let_def hashToken_id_a entry_a_def len_def fcard_fempty)

lemma cache_ab_eq:
  "cache_ab = \<lparr>ttl = 10, maxSize = 2,
               entries = fmupd ''62'' entry_b (fmupd ''61'' entry_a fmempty), stop = False,
               hits = 0, misses = 0, evictions = 0, entryGauge = 2\<rparr>"
  by (simp add: cache_ab_def cache_a_eq Set_def Let_def hashToken_id_b entry_b_def len_def
        fcard_finsert_if fcard_fempty)

lemma range_order_a: "range_order [''61''] (entries cache_a)"
  by (simp add: range_order_def cache_a_eq)

lemma range_order_ab: "range_order [''61'', ''62''] (entries cache_ab)"
  by (auto simp add: range_order_def cache_ab_eq)

lemma Len_cache_a: "Len cache_a = 1"
  by (simp add: Len_def len_def cache_a_eq fcard_finsert_if fcard_fempty)

lemma Len_cache_ab: "Len cache_ab = 2"
  by (simp add: Len_def len_def cache_ab_eq fcard_finsert_if fcard_fempty)

lemma Get_New_miss: "fst (Get id now ''a'' (New t n)) = (zeroResult, None, False)"
  by (simp add: Get_def New_def Let_def)

lemma stub_validator_impl:
  "cache (stub_validator cl now_get now_set) = Cache_impl id now_get now_set []"
  by (simp add: stub_validator_def)

section \<open>Lemmas on the validator\<close>

lemma errors_Is_Unauthorized_not_RateLimited:
  "errors_Is e github_ErrUnauthorized \<Longrightarrow> \<not> errors_Is e github_ErrRateLimited"
  by (induction e) auto

lemma Validate_miss_GetUser_error:
  assumes "snd (snd (fst (cache_Get (cache v) token s))) = False"
    and "GetUser (github v) token = (u, b, Some e)"
  shows "Validate v token s =
           (if errors_Is e github_ErrRateLimited
            then (Return None (Some (Errorf [] ErrRateLimited)),
                  snd (cache_Get (cache v) token s), [Call_GetUser token])
            else if errors_Is e github_ErrUnauthorized
            then (Return None (Some (Errorf [] ErrUnauthorized)),
                  cache_Set (cache v) token zeroResult (Some ErrUnauthorized)
                    (snd (cache_Get (cache v) token s)),
                  [Call_GetUser token])
            else (Return None (Some (Errorf ''getting user: '' e)),
                  snd (cache_Get (cache v) token s), [Call_GetUser token]))"
  using assms by (cases "cache_Get (cache v) token s") (auto simp: Validate_def)

lemma Validate_miss_CheckOrgMembership_error:
  assumes "snd (snd (fst (cache_Get (cache v) token s))) = False"
    and "GetUser (github v) token = (Some u, b, None)"
    and "\<not> (rejectClassicPATs v \<and> b)"
    and "CheckOrgMembership (github v) token (org v) (User_Login u) = Some e"
    and "errors_Is e github_ErrRateLimited"
  shows "Validate v token s =
           (Return None (Some (Errorf [] ErrRateLimited)),
            snd (cache_Get (cache v) token s),
            [Call_GetUser token, Call_CheckOrgMembership token (org v) (User_Login u)])"
  using assms by (cases "cache_Get (cache v) token s") (auto simp: Validate_def)

lemma Validate_miss_ListUserTeams:
  assumes "snd (snd (fst (cache_Get (cache v) token s))) = False"
    and "GetUser (github v) token = (Some u, b, None)"
    and "\<not> (rejectClassicPATs v \<and> b)"
    and "CheckOrgMembership (github v) token (org v) (User_Login u) = None"
    and "ListUserTeams (github v) token (org v) = (teams, err)"
  shows "Validate v token s =
           (case err of
              Some e \<Rightarrow>
                if errors_Is e github_ErrRateLimited
                then (Return None (Some (Errorf [] ErrRateLimited)),
                      snd (cache_Get (cache v) token s),
                      [Call_GetUser token, Call_CheckOrgMembership token (org v) (User_Login u),
                       Call_ListUserTeams token (org v)])
                else (Return None (Some (Errorf ''listing user teams: '' e)),
                      snd (cache_Get (cache v) token s),
                      [Call_GetUser token, Call_CheckOrgMembership token (org v) (User_Login u),
                       Call_ListUserTeams token (org v)])
            | None \<Rightarrow>
                (Return (Some \<lparr>Login = User_Login u, ID = User_ID u, Email = User_Email u,
                                Org = org v, Teams = map Slug teams\<rparr>) None,
                 cache_Set (cache v) token
                   \<lparr>Login = User_Login u, ID = User_ID u, Email = User_Email u,
                      Org = org v, Teams = map Slug teams\<rparr> None
                   (snd (cache_Get (cache v) token s)),
                 [Call_GetUser token, Call_CheckOrgMembership token (org v) (User_Login u),
                  Call_ListUserTeams token (org v)]))"
  using assms
  by (cases "cache_Get (cache v) token s") (auto simp: Validate_def Let_def split: option.splits)

lemma Validate_hit:
  assumes "fst (cache_Get (cache v) token s) = (result, cachedErr, True)"
  shows "Validate v token s =
           ((case cachedErr of Some e \<Rightarrow> Return None (Some e) | None \<Rightarrow> Return (Some result) None),
            snd (cache_Get (cache v) token s), [])"
  using assms
  by (cases "cache_Get (cache v) token s") (auto simp: Validate_def split: option.splits)

lemma two_pages_loop:
  "ListUserTeams_loop (two_pages ''a'') 0 ''api/user/teams?per_page=100'' [] =
     Some ([team_platform, team_docs, team_security, team_sre], None)"
  apply (subst ListUserTeams_loop.simps)
  apply (simp add: two_pages_def)
  apply (subst ListUserTeams_loop.simps)
  apply (simp add: two_pages_def)
  apply (subst ListUserTeams_loop.simps)
  apply simp
  done

lemma two_pages_HTTPClient:
  "HTTPClient_ListUserTeams ascii_EqualFold ''api'' two_pages ''a'' ''acme'' =
     Some ([team_platform, team_security, team_sre], None)"
  by (simp add: HTTPClient_ListUserTeams_def two_pages_loop ascii_EqualFold_def ascii_lower_def
        team_platform_def team_docs_def team_security_def team_sre_def)

section \<open>The claims\<close>

text \<open>
  Claim C1. In a cache with a positive TTL, a Get on a token whose entry has an
  ExpiresAt before the current time reports a miss: the zero result, no error and
  found = false. It does so on the cache as it is, the expired entry still in the map,
  and on the cache after a sweep at any time \<open>t\<close> and in any order \<open>ks\<close>: the answer does
  not depend on the sweep having run.
\<close>

theorem Get_never_returns_expired:
  assumes "0 < ttl c"
    and "fmlookup (entries c) (hashToken Sum256 token) = Some e"
    and "ExpiresAt e < now"
  shows "fst (Get Sum256 now token c) = (zeroResult, None, False) \<and>
         fst (Get Sum256 now token (removeExpired t ks c)) = (zeroResult, None, False)"
  using assms
  by (auto simp: Get_def removeExpired_def removeExpired_loop_fields removeExpired_loop_lookup
           split: option.splits)

theorem Get_never_returns_expired_witness:
  "fst (Get id 11 ''a'' cache_a) = (zeroResult, None, False) \<and>
   fst (Get id 11 ''a'' (removeExpired 5 [''61''] cache_a)) = (zeroResult, None, False)"
proof -
  have h1: "0 < ttl cache_a" by (simp add: cache_a_eq)
  have h2: "fmlookup (entries cache_a) (hashToken id ''a'') = Some entry_a"
    by (simp add: cache_a_eq hashToken_id_a)
  have h3: "ExpiresAt entry_a < 11" by (simp add: entry_a_def)
  from Get_never_returns_expired[OF h1 h2 h3] show ?thesis .
qed

text \<open>
  Claim C2. Validate runs on the cache of cache.go; its lookup of the token, at time
  \<open>now_get\<close>, is a miss. If GetUser returns an error that is ErrRateLimited, or GetUser
  succeeds, the token is not a rejected classic PAT and CheckOrgMembership returns such
  an error, or both succeed and ListUserTeams returns such an error, then Validate
  returns nil and an error wrapping ErrRateLimited; the cache it leaves is the one the
  lookup left (no Set and no Delete happened), so its entries are those from before
  the call; and a Get on the token at any later time \<open>now'\<close> is a miss.
\<close>

theorem Validate_rate_limited_not_cached:
  assumes impl: "cache v = Cache_impl Sum256 now_get now_set ks"
    and miss: "snd (snd (fst (Get Sum256 now_get token c))) = False"
    and rl: "(\<exists>u b e. GetUser (github v) token = (u, b, Some e) \<and>
                      errors_Is e github_ErrRateLimited) \<or>
             (\<exists>u b e. GetUser (github v) token = (Some u, b, None) \<and>
                      \<not> (rejectClassicPATs v \<and> b) \<and>
                      CheckOrgMembership (github v) token (org v) (User_Login u) = Some e \<and>
                      errors_Is e github_ErrRateLimited) \<or>
             (\<exists>u b teams e. GetUser (github v) token = (Some u, b, None) \<and>
                      \<not> (rejectClassicPATs v \<and> b) \<and>
                      CheckOrgMembership (github v) token (org v) (User_Login u) = None \<and>
                      ListUserTeams (github v) token (org v) = (teams, Some e) \<and>
                      errors_Is e github_ErrRateLimited)"
    and later: "now_get \<le> now'"
  shows "fst (Validate v token c) = Return None (Some (Errorf [] ErrRateLimited)) \<and>
         errors_Is (Errorf [] ErrRateLimited) ErrRateLimited \<and>
         fst (snd (Validate v token c)) = snd (Get Sum256 now_get token c) \<and>
         entries (fst (snd (Validate v token c))) = entries c \<and>
         fst (Get Sum256 now' token (fst (snd (Validate v token c)))) =
           (zeroResult, None, False)"
proof -
  from impl have g: "cache_Get (cache v) = Get Sum256 now_get"
    by (simp add: Cache_impl_def)
  from miss g have miss': "snd (snd (fst (cache_Get (cache v) token c))) = False" by simp
  have v: "fst (Validate v token c) = Return None (Some (Errorf [] ErrRateLimited)) \<and>
           fst (snd (Validate v token c)) = snd (Get Sum256 now_get token c)"
    using rl
  proof (elim disjE exE conjE)
    fix u b e
    assume "GetUser (github v) token = (u, b, Some e)" "errors_Is e github_ErrRateLimited"
    with Validate_miss_GetUser_error[OF miss', of u b e] g show ?thesis by simp
  next
    fix u b e
    assume "GetUser (github v) token = (Some u, b, None)" "\<not> (rejectClassicPATs v \<and> b)"
      "CheckOrgMembership (github v) token (org v) (User_Login u) = Some e"
      "errors_Is e github_ErrRateLimited"
    from Validate_miss_CheckOrgMembership_error[OF miss' this] g show ?thesis by simp
  next
    fix u b teams e
    assume "GetUser (github v) token = (Some u, b, None)" "\<not> (rejectClassicPATs v \<and> b)"
      "CheckOrgMembership (github v) token (org v) (User_Login u) = None"
      "ListUserTeams (github v) token (org v) = (teams, Some e)"
      and r: "errors_Is e github_ErrRateLimited"
    from Validate_miss_ListUserTeams[OF miss' this(1-4)] r g show ?thesis by simp
  qed
  then have e: "entries (fst (snd (Validate v token c))) = entries c"
    "ttl (fst (snd (Validate v token c))) = ttl c"
    by (simp_all add: Get_state)
  from Get_miss_later[OF miss later e] v e show ?thesis by simp
qed

theorem Validate_rate_limited_not_cached_witness:
  "fst (Validate (stub_validator (stub_client (None, False, Some github_ErrRateLimited) None
                    ([], None)) 1 2) ''a'' (New 10 2)) =
     Return None (Some (Errorf [] ErrRateLimited)) \<and>
   entries (fst (snd (Validate (stub_validator (stub_client (None, False,
                    Some github_ErrRateLimited) None ([], None)) 1 2) ''a'' (New 10 2)))) =
     entries (New 10 2) \<and>
   fst (Validate (stub_validator (stub_client (Some user_a, False, None)
                    (Some github_ErrRateLimited) ([], None)) 1 2) ''a'' (New 10 2)) =
     Return None (Some (Errorf [] ErrRateLimited)) \<and>
   fst (Validate (stub_validator (stub_client (Some user_a, False, None) None
                    ([], Some (Errorf ''page: '' github_ErrRateLimited))) 1 2) ''a'' (New 10 2)) =
     Return None (Some (Errorf [] ErrRateLimited)) \<and>
   fst (Get id 3 ''a'' (fst (snd (Validate (stub_validator (stub_client (Some user_a, False, None)
                    None ([], Some (Errorf ''page: '' github_ErrRateLimited))) 1 2) ''a''
                    (New 10 2))))) = (zeroResult, None, False)"
proof -
  let ?v1 = "stub_validator (stub_client (None, False, Some github_ErrRateLimited) None
               ([], None)) 1 2"
  let ?v2 = "stub_validator (stub_client (Some user_a, False, None)
               (Some github_ErrRateLimited) ([], None)) 1 2"
  let ?v3 = "stub_validator (stub_client (Some user_a, False, None) None
               ([], Some (Errorf ''page: '' github_ErrRateLimited))) 1 2"
  have miss: "snd (snd (fst (Get id 1 ''a'' (New 10 2)))) = False"
    by (simp add: Get_New_miss)
  have later: "(1::int) \<le> 3" by simp
  have r1: "(\<exists>u b e. GetUser (github ?v1) ''a'' = (u, b, Some e) \<and>
                      errors_Is e github_ErrRateLimited) \<or>
             (\<exists>u b e. GetUser (github ?v1) ''a'' = (Some u, b, None) \<and>
                      \<not> (rejectClassicPATs ?v1 \<and> b) \<and>
                      CheckOrgMembership (github ?v1) ''a'' (org ?v1) (User_Login u) = Some e \<and>
                      errors_Is e github_ErrRateLimited) \<or>
             (\<exists>u b teams e. GetUser (github ?v1) ''a'' = (Some u, b, None) \<and>
                      \<not> (rejectClassicPATs ?v1 \<and> b) \<and>
                      CheckOrgMembership (github ?v1) ''a'' (org ?v1) (User_Login u) = None \<and>
                      ListUserTeams (github ?v1) ''a'' (org ?v1) = (teams, Some e) \<and>
                      errors_Is e github_ErrRateLimited)"
    by (auto simp add: stub_validator_def stub_client_def)
  have r2: "(\<exists>u b e. GetUser (github ?v2) ''a'' = (u, b, Some e) \<and>
                      errors_Is e github_ErrRateLimited) \<or>
             (\<exists>u b e. GetUser (github ?v2) ''a'' = (Some u, b, None) \<and>
                      \<not> (rejectClassicPATs ?v2 \<and> b) \<and>
                      CheckOrgMembership (github ?v2) ''a'' (org ?v2) (User_Login u) = Some e \<and>
                      errors_Is e github_ErrRateLimited) \<or>
             (\<exists>u b teams e. GetUser (github ?v2) ''a'' = (Some u, b, None) \<and>
                      \<not> (rejectClassicPATs ?v2 \<and> b) \<and>
                      CheckOrgMembership (github ?v2) ''a'' (org ?v2) (User_Login u) = None \<and>
                      ListUserTeams (github ?v2) ''a'' (org ?v2) = (teams, Some e) \<and>
                      errors_Is e github_ErrRateLimited)"
    by (auto simp add: stub_validator_def stub_client_def)
  have r3: "(\<exists>u b e. GetUser (github ?v3) ''a'' = (u, b, Some e) \<and>
                      errors_Is e github_ErrRateLimited) \<or>
             (\<exists>u b e. GetUser (github ?v3) ''a'' = (Some u, b, None) \<and>
                      \<not> (rejectClassicPATs ?v3 \<and> b) \<and>
                      CheckOrgMembership (github ?v3) ''a'' (org ?v3) (User_Login u) = Some e \<and>
                      errors_Is e github_ErrRateLimited) \<or>
             (\<exists>u b teams e. GetUser (github ?v3) ''a'' = (Some u, b, None) \<and>
                      \<not> (rejectClassicPATs ?v3 \<and> b) \<and>
                      CheckOrgMembership (github ?v3) ''a'' (org ?v3) (User_Login u) = None \<and>
                      ListUserTeams (github ?v3) ''a'' (org ?v3) = (teams, Some e) \<and>
                      errors_Is e github_ErrRateLimited)"
    by (auto simp add: stub_validator_def stub_client_def)
  from Validate_rate_limited_not_cached[OF stub_validator_impl miss r1 later]
       Validate_rate_limited_not_cached[OF stub_validator_impl miss r2 later]
       Validate_rate_limited_not_cached[OF stub_validator_impl miss r3 later]
  show ?thesis by blast
qed

text \<open>
  Claim C3, as stated, fails on a cache built with a TTL of 0, which main accepts
  (\<^verbatim>\<open>-cache-ttl 0\<close>) and in which Set returns at once: every lookup is a miss, GetUser
  returns ErrUnauthorized and Validate returns Unauthorized, yet no entry is stored, a
  Get right after is a miss, and the next Validate calls GetUser again.
\<close>

theorem Validate_unauthorized_disabled_cache:
  "snd (snd (fst (Get id 1 ''a'' (New 0 2)))) = False \<and>
   GetUser (github (stub_validator (stub_client (None, False, Some github_ErrUnauthorized) None
                    ([], None)) 1 2)) ''a'' = (None, False, Some github_ErrUnauthorized) \<and>
   fst (Validate (stub_validator (stub_client (None, False, Some github_ErrUnauthorized) None
                    ([], None)) 1 2) ''a'' (New 0 2)) =
     Return None (Some (Errorf [] ErrUnauthorized)) \<and>
   fmlookup (entries (fst (snd (Validate (stub_validator (stub_client (None, False,
                    Some github_ErrUnauthorized) None ([], None)) 1 2) ''a'' (New 0 2)))))
     (hashToken id ''a'') = None \<and>
   fst (Get id 2 ''a'' (fst (snd (Validate (stub_validator (stub_client (None, False,
                    Some github_ErrUnauthorized) None ([], None)) 1 2) ''a'' (New 0 2))))) =
     (zeroResult, None, False) \<and>
   snd (snd (Validate (stub_validator (stub_client (None, False, Some github_ErrUnauthorized) None
                    ([], None)) 2 3) ''a''
          (fst (snd (Validate (stub_validator (stub_client (None, False,
                    Some github_ErrUnauthorized) None ([], None)) 1 2) ''a'' (New 0 2)))))) =
     [Call_GetUser ''a'']"
  by (simp add: Validate_def stub_validator_def stub_client_def Cache_impl_def Get_def Set_def
        New_def)

text \<open>
  Claim C3, amended. Validate runs on the cache of cache.go with a positive TTL; its
  lookup of the token is a miss and GetUser returns an error that is ErrUnauthorized.
  Then Validate returns nil and an error wrapping ErrUnauthorized, and the cache holds
  for the token the negative entry (zero result, ErrUnauthorized) that expires a TTL
  after the time \<open>now_set\<close> of the Set. At any time \<open>now'\<close> up to that expiry, a Get on
  the token is a negative hit for ErrUnauthorized, and a Validate of the token, by a
  validator \<open>v'\<close> over any client, returns nil and ErrUnauthorized and calls the client
  not at all.
\<close>

theorem Validate_unauthorized_cached:
  assumes impl: "cache v = Cache_impl Sum256 now_get now_set ks"
    and pos: "0 < ttl c"
    and miss: "snd (snd (fst (Get Sum256 now_get token c))) = False"
    and user: "GetUser (github v) token = (u, b, Some e)"
    and unauth: "errors_Is e github_ErrUnauthorized"
    and within: "now' \<le> now_set + ttl c"
    and impl': "cache v' = Cache_impl Sum256 now' now_set' ks'"
  shows "fst (Validate v token c) = Return None (Some (Errorf [] ErrUnauthorized)) \<and>
         errors_Is (Errorf [] ErrUnauthorized) ErrUnauthorized \<and>
         fmlookup (entries (fst (snd (Validate v token c)))) (hashToken Sum256 token) =
           Some \<lparr>Result = zeroResult, Err = Some ErrUnauthorized, ExpiresAt = now_set + ttl c\<rparr> \<and>
         fst (Get Sum256 now' token (fst (snd (Validate v token c)))) =
           (zeroResult, Some ErrUnauthorized, True) \<and>
         fst (Validate v' token (fst (snd (Validate v token c)))) =
           Return None (Some ErrUnauthorized) \<and>
         snd (snd (Validate v' token (fst (snd (Validate v token c))))) = []"
proof -
  let ?c1 = "snd (Get Sum256 now_get token c)"
  let ?c2 = "Set Sum256 now_set ks token zeroResult (Some ErrUnauthorized) ?c1"
  from impl have g: "cache_Get (cache v) = Get Sum256 now_get"
    and s: "cache_Set (cache v) = Set Sum256 now_set ks"
    by (simp_all add: Cache_impl_def)
  from miss g have miss': "snd (snd (fst (cache_Get (cache v) token c))) = False" by simp
  from errors_Is_Unauthorized_not_RateLimited[OF unauth]
  have nrl: "\<not> errors_Is e github_ErrRateLimited" .
  from Validate_miss_GetUser_error[OF miss' user] nrl unauth g s
  have val: "Validate v token c =
      (Return None (Some (Errorf [] ErrUnauthorized)), ?c2, [Call_GetUser token])" by simp
  have t1: "ttl ?c1 = ttl c" by (simp add: Get_state)
  with pos have nz1: "ttl ?c1 \<noteq> 0" by simp
  from Set_lookup_same[OF nz1, of Sum256 now_set ks token zeroResult "Some ErrUnauthorized"] t1
  have look: "fmlookup (entries ?c2) (hashToken Sum256 token) =
           Some \<lparr>Result = zeroResult, Err = Some ErrUnauthorized, ExpiresAt = now_set + ttl c\<rparr>"
    by simp
  from within t1 have "now' \<le> now_set + ttl ?c1" by simp
  from Get_after_Set[OF nz1 this, of Sum256 token ks zeroResult "Some ErrUnauthorized"]
  have get: "fst (Get Sum256 now' token ?c2) = (zeroResult, Some ErrUnauthorized, True)" .
  from impl' have g': "cache_Get (cache v') = Get Sum256 now'" by (simp add: Cache_impl_def)
  from get g' have "fst (cache_Get (cache v') token ?c2) = (zeroResult, Some ErrUnauthorized, True)"
    by simp
  from Validate_hit[OF this]
  have val': "Validate v' token ?c2 =
      (Return None (Some ErrUnauthorized), snd (cache_Get (cache v') token ?c2), [])" by simp
  from val look get val' show ?thesis by simp
qed

theorem Validate_unauthorized_cached_witness:
  "fst (Validate (stub_validator (stub_client (None, False, Some github_ErrUnauthorized) None
                    ([], None)) 1 2) ''a'' (New 10 2)) =
     Return None (Some (Errorf [] ErrUnauthorized)) \<and>
   fst (Get id 12 ''a'' (fst (snd (Validate (stub_validator (stub_client (None, False,
                    Some github_ErrUnauthorized) None ([], None)) 1 2) ''a'' (New 10 2))))) =
     (zeroResult, Some ErrUnauthorized, True) \<and>
   fst (Validate (stub_validator (stub_client (Some user_a, False, None) None ([], None)) 12 13)
          ''a'' (fst (snd (Validate (stub_validator (stub_client (None, False,
                    Some github_ErrUnauthorized) None ([], None)) 1 2) ''a'' (New 10 2))))) =
     Return None (Some ErrUnauthorized) \<and>
   snd (snd (Validate (stub_validator (stub_client (Some user_a, False, None) None ([], None)) 12 13)
          ''a'' (fst (snd (Validate (stub_validator (stub_client (None, False,
                    Some github_ErrUnauthorized) None ([], None)) 1 2) ''a'' (New 10 2)))))) = []"
proof -
  let ?v = "stub_validator (stub_client (None, False, Some github_ErrUnauthorized) None
               ([], None)) 1 2"
  have pos: "0 < ttl (New 10 2)" by (simp add: New_def)
  have miss: "snd (snd (fst (Get id 1 ''a'' (New 10 2)))) = False"
    by (simp add: Get_New_miss)
  have user: "GetUser (github ?v) ''a'' = (None, False, Some github_ErrUnauthorized)"
    by (simp add: stub_validator_def stub_client_def)
  have unauth: "errors_Is github_ErrUnauthorized github_ErrUnauthorized" by simp
  have within: "(12::int) \<le> 2 + ttl (New 10 2)" by (simp add: New_def)
  from Validate_unauthorized_cached
         [OF stub_validator_impl pos miss user unauth within stub_validator_impl]
  show ?thesis by blast
qed

text \<open>
  Claim C4, as stated, fails on a cache built with a TTL of 0 and a maxSize of 1: Set
  returns at once, so after the Set of two distinct new keys Len is 0, not maxSize.
\<close>

theorem Len_disabled_cache_stays_empty:
  "0 < maxSize (New 0 1) \<and> maxSize (New 0 1) = 1 \<and>
   hashToken id ''a'' \<noteq> hashToken id ''b'' \<and>
   Len (Set id 1 [] ''b'' zeroResult None (Set id 0 [] ''a'' zeroResult None (New 0 1))) = 0"
  by (simp add: hashToken_id_a hashToken_id_b Set_def New_def Len_def len_def fcard_fempty)

text \<open>
  Claim C4, amended. In every state \<open>c\<close> that a cache built with a maxSize \<open>n > 0\<close>
  reaches by Get, Set, Delete, Stop, sweeps and evictions, Len is at most \<open>n\<close>; and if
  the TTL is not 0, a run of \<open>n + 1\<close> Set calls from \<open>c\<close> on keys that are distinct and
  not in the cache leaves Len equal to \<open>n\<close>.
\<close>

theorem Len_bounded_by_maxSize:
  assumes "reachable Sum256 t n c" and "0 < n"
  shows "Len c \<le> n \<and>
         (t \<noteq> 0 \<and> int (length ops) = n + 1 \<and> distinct (keys_of Sum256 ops) \<and>
          set (keys_of Sum256 ops) \<inter> fmdom' (entries c) = {} \<and> range_orders Sum256 ops c
          \<longrightarrow> Len (Set_all Sum256 ops c) = n)"
proof -
  from reachable_inv[OF assms(1)] assms(2)
  have inv: "ttl c = t" "maxSize c = n" "len (entries c) \<le> n" by simp_all
  show ?thesis
  proof (intro conjI impI)
    show "Len c \<le> n" using inv by (simp add: Len_def)
  next
    assume h: "t \<noteq> 0 \<and> int (length ops) = n + 1 \<and> distinct (keys_of Sum256 ops) \<and>
          set (keys_of Sum256 ops) \<inter> fmdom' (entries c) = {} \<and> range_orders Sum256 ops c"
    with inv assms(2) have "len (entries (Set_all Sum256 ops c)) =
        min (maxSize c) (len (entries c) + int (length ops))"
      by (intro Set_all_len) simp_all
    with h inv len_nonneg[of "entries c"] show "Len (Set_all Sum256 ops c) = n"
      by (simp add: Len_def min_def)
  qed
qed

theorem Len_bounded_by_maxSize_witness:
  "Len (New 10 1) \<le> 1 \<and>
   Len (Set_all id [(0, [], ''a'', zeroResult, None), (1, [''61''], ''b'', zeroResult, None)]
          (New 10 1)) = 1"
proof -
  have h1: "reachable id 10 1 (New 10 1)" by (rule r_New)
  have h2: "(0::int) < 1" by simp
  have s1: "Set id 0 [] ''a'' zeroResult None (New 10 1) =
      \<lparr>ttl = 10, maxSize = 1, entries = fmupd ''61'' entry_a fmempty, stop = False,
       hits = 0, misses = 0, evictions = 0, entryGauge = 1\<rparr>"
    by (simp add: Set_def New_def Let_def hashToken_id_a entry_a_def len_def fcard_fempty)
  have p: "(10::int) \<noteq> 0 \<and>
     int (length [(0::int, []::string list, ''a'', zeroResult, None::go_error option),
                  (1, [''61''], ''b'', zeroResult, None)]) = 1 + 1 \<and>
     distinct (keys_of id [(0, [], ''a'', zeroResult, None), (1, [''61''], ''b'', zeroResult, None)]) \<and>
     set (keys_of id [(0, [], ''a'', zeroResult, None), (1, [''61''], ''b'', zeroResult, None)]) \<inter>
       fmdom' (entries (New 10 1)) = {} \<and>
     range_orders id [(0, [], ''a'', zeroResult, None), (1, [''61''], ''b'', zeroResult, None)]
       (New 10 1)"
    by (simp add: keys_of_def hashToken_id_a hashToken_id_b s1 range_order_def)
       (simp add: New_def)
  from Len_bounded_by_maxSize
         [OF h1 h2, of "[(0, [], ''a'', zeroResult, None), (1, [''61''], ''b'', zeroResult, None)]"] p
  show ?thesis by blast
qed

text \<open>
  Claim C5. In a cache with a positive TTL and a positive maxSize, take a Set on a key
  that is not in the map, the range of evictOldest going in any order \<open>ks\<close>. If the
  cache holds at least maxSize entries, the map afterwards is the old one with one key
  \<open>k\<close> dropped and the new entry added, where the entry of \<open>k\<close> has an ExpiresAt that no
  entry of the old map undercuts; the eviction counter goes up by one and Len stays.
  If the cache holds fewer than maxSize entries, the map afterwards is the old one with
  the new entry added: nothing is evicted, and Len goes up by one.
\<close>

theorem Set_new_key_evicts_earliest:
  assumes "0 < ttl c" and "0 < maxSize c"
    and "fmlookup (entries c) (hashToken Sum256 token) = None"
    and "range_order ks (entries c)"
  shows "(maxSize c \<le> Len c \<longrightarrow>
            (\<exists>k e. fmlookup (entries c) k = Some e \<and>
                   (\<forall>k' e'. fmlookup (entries c) k' = Some e' \<longrightarrow> ExpiresAt e \<le> ExpiresAt e') \<and>
                   entries (Set Sum256 now ks token result err c) =
                     fmupd (hashToken Sum256 token)
                       \<lparr>Result = result, Err = err, ExpiresAt = now + ttl c\<rparr>
                       (fmdrop k (entries c))) \<and>
            evictions (Set Sum256 now ks token result err c) = evictions c + 1 \<and>
            Len (Set Sum256 now ks token result err c) = Len c) \<and>
         (Len c < maxSize c \<longrightarrow>
            entries (Set Sum256 now ks token result err c) =
              fmupd (hashToken Sum256 token)
                \<lparr>Result = result, Err = err, ExpiresAt = now + ttl c\<rparr> (entries c) \<and>
            evictions (Set Sum256 now ks token result err c) = evictions c \<and>
            Len (Set Sum256 now ks token result err c) = Len c + 1)"
proof (intro conjI impI)
  assume full: "maxSize c \<le> Len c"
  from assms(1) have nz: "ttl c \<noteq> 0" by simp
  from full have full': "maxSize c \<le> len (entries c)" by (simp add: Len_def)
  from Set_new_full[OF nz assms(3) assms(2) full' assms(4), of now result err]
  obtain k e where e: "fmlookup (entries c) k = Some e"
    "\<forall>k' e'. fmlookup (entries c) k' = Some e' \<longrightarrow> ExpiresAt e \<le> ExpiresAt e'"
    and eq: "Set Sum256 now ks token result err c =
           c\<lparr>entries := fmupd (hashToken Sum256 token)
                          \<lparr>Result = result, Err = err, ExpiresAt = now + ttl c\<rparr>
                          (fmdrop k (entries c)),
             entryGauge := entryGauge c,
             evictions := evictions c + 1\<rparr>" by blast
  from e eq show "\<exists>k e. fmlookup (entries c) k = Some e \<and>
                   (\<forall>k' e'. fmlookup (entries c) k' = Some e' \<longrightarrow> ExpiresAt e \<le> ExpiresAt e') \<and>
                   entries (Set Sum256 now ks token result err c) =
                     fmupd (hashToken Sum256 token)
                       \<lparr>Result = result, Err = err, ExpiresAt = now + ttl c\<rparr>
                       (fmdrop k (entries c))"
    by auto
  from eq show "evictions (Set Sum256 now ks token result err c) = evictions c + 1" by simp
  from e(1) assms(3) have "k \<noteq> hashToken Sum256 token" by auto
  with eq e(1) assms(3) show "Len (Set Sum256 now ks token result err c) = Len c"
    by (simp add: Len_def len_fmupd len_fmdrop)
next
  assume below: "Len c < maxSize c"
  from assms(1) have nz: "ttl c \<noteq> 0" by simp
  from below have "\<not> (0 < maxSize c \<and> maxSize c \<le> len (entries c))" by (simp add: Len_def)
  note eq = Set_new_below[OF nz assms(3) this, of now ks result err]
  from eq show "entries (Set Sum256 now ks token result err c) =
              fmupd (hashToken Sum256 token)
                \<lparr>Result = result, Err = err, ExpiresAt = now + ttl c\<rparr> (entries c)" by simp
  from eq show "evictions (Set Sum256 now ks token result err c) = evictions c" by simp
  from eq assms(3) show "Len (Set Sum256 now ks token result err c) = Len c + 1"
    by (simp add: Len_def len_fmupd)
qed

theorem Set_new_key_evicts_earliest_witness:
  "evictions (Set id 2 [''62'', ''61''] ''c'' zeroResult None cache_ab) = evictions cache_ab + 1 \<and>
   Len (Set id 2 [''62'', ''61''] ''c'' zeroResult None cache_ab) = Len cache_ab \<and>
   fmlookup (entries (Set id 2 [''62'', ''61''] ''c'' zeroResult None cache_ab)) ''61'' = None \<and>
   fmlookup (entries (Set id 2 [''62'', ''61''] ''c'' zeroResult None cache_ab)) ''62'' =
     Some entry_b \<and>
   evictions (Set id 1 [''61''] ''b'' zeroResult None cache_a) = evictions cache_a \<and>
   Len (Set id 1 [''61''] ''b'' zeroResult None cache_a) = Len cache_a + 1"
proof -
  let ?c' = "Set id 2 [''62'', ''61''] ''c'' zeroResult None cache_ab"
  have a1: "0 < ttl cache_ab" by (simp add: cache_ab_eq)
  have a2: "0 < maxSize cache_ab" by (simp add: cache_ab_eq)
  have a3: "fmlookup (entries cache_ab) (hashToken id ''c'') = None"
    by (simp add: cache_ab_eq hashToken_id_c)
  have a4: "range_order [''62'', ''61''] (entries cache_ab)"
    by (auto simp add: range_order_def cache_ab_eq)
  have a5: "maxSize cache_ab \<le> Len cache_ab" by (simp add: Len_cache_ab) (simp add: cache_ab_eq)
  have b1: "0 < ttl cache_a" by (simp add: cache_a_eq)
  have b2: "0 < maxSize cache_a" by (simp add: cache_a_eq)
  have b3: "fmlookup (entries cache_a) (hashToken id ''b'') = None"
    by (simp add: cache_a_eq hashToken_id_b)
  have b5: "Len cache_a < maxSize cache_a" by (simp add: Len_cache_a) (simp add: cache_a_eq)
  note full = Set_new_key_evicts_earliest[OF a1 a2 a3 a4, of 2 zeroResult None]
  note below = Set_new_key_evicts_earliest[OF b1 b2 b3 range_order_a, of 1 zeroResult None]
  from full a5 obtain k e where k: "fmlookup (entries cache_ab) k = Some e"
    "\<forall>k' e'. fmlookup (entries cache_ab) k' = Some e' \<longrightarrow> ExpiresAt e \<le> ExpiresAt e'"
    "entries ?c' = fmupd (hashToken id ''c'')
                     \<lparr>Result = zeroResult, Err = None, ExpiresAt = 2 + ttl cache_ab\<rparr>
                     (fmdrop k (entries cache_ab))"
    by blast
  have "fmlookup (entries cache_ab) ''61'' = Some entry_a" by (simp add: cache_ab_eq)
  with k(2) have "ExpiresAt e \<le> ExpiresAt entry_a" by blast
  then have "ExpiresAt e \<le> 10" by (simp add: entry_a_def)
  with k(1) have "k = ''61''"
    by (auto simp: cache_ab_eq entry_b_def split: if_splits)
  with k(3) have "fmlookup (entries ?c') ''61'' = None"
    "fmlookup (entries ?c') ''62'' = Some entry_b"
    by (simp_all add: hashToken_id_c cache_ab_eq)
  with full a5 below b5 show ?thesis by simp
qed

text \<open>
  Claim C6. In a cache with a positive TTL, a Set of a token with any result and any
  error (nil or not) at time \<open>now_set\<close>, followed at once by a Get of the token at a time
  no later than \<open>now_set\<close> plus the TTL, returns that result and that error with
  found = true.
\<close>

theorem Set_then_Get:
  assumes "0 < ttl c" and "now_get \<le> now_set + ttl c"
  shows "fst (Get Sum256 now_get token (Set Sum256 now_set ks token result err c)) =
           (result, err, True)"
proof -
  from assms(1) have "ttl c \<noteq> 0" by simp
  from Get_after_Set[OF this assms(2)] show ?thesis .
qed

theorem Set_then_Get_witness:
  "fst (Get id 5 ''a'' (Set id 0 [] ''a'' result_userA None (New 10 2))) =
     (result_userA, None, True)"
proof -
  have h1: "0 < ttl (New 10 2)" by (simp add: New_def)
  have h2: "(5::int) \<le> 0 + ttl (New 10 2)" by (simp add: New_def)
  from Set_then_Get[OF h1 h2] show ?thesis .
qed

text \<open>
  Claim C7. In a cache with a positive TTL, a Set on a key that is in the map changes
  the cache in one place only: the entry of that key is replaced by the new one. Len
  and the eviction counter are as before, and the map without that key is as before,
  so no other entry was evicted or touched.
\<close>

theorem Set_overwrite_frame:
  assumes "0 < ttl c" and "fmlookup (entries c) (hashToken Sum256 token) = Some e0"
  shows "Set Sum256 now ks token result err c =
           c\<lparr>entries := fmupd (hashToken Sum256 token)
                          \<lparr>Result = result, Err = err, ExpiresAt = now + ttl c\<rparr> (entries c)\<rparr> \<and>
         Len (Set Sum256 now ks token result err c) = Len c \<and>
         evictions (Set Sum256 now ks token result err c) = evictions c \<and>
         fmdrop (hashToken Sum256 token) (entries (Set Sum256 now ks token result err c)) =
           fmdrop (hashToken Sum256 token) (entries c)"
proof -
  from assms(1) have nz: "ttl c \<noteq> 0" by simp
  note eq = Set_existing[OF nz assms(2), of now ks result err]
  show ?thesis
    using assms(2) by (simp add: eq Len_def len_fmupd fmdrop_fmupd_same)
qed

theorem Set_overwrite_frame_witness:
  "Len (Set id 3 [''61'', ''62''] ''a'' result_userA None cache_ab) = Len cache_ab \<and>
   evictions (Set id 3 [''61'', ''62''] ''a'' result_userA None cache_ab) = evictions cache_ab \<and>
   fmdrop (hashToken id ''a'') (entries (Set id 3 [''61'', ''62''] ''a'' result_userA None cache_ab)) =
     fmdrop (hashToken id ''a'') (entries cache_ab)"
proof -
  have h1: "0 < ttl cache_ab" by (simp add: cache_ab_eq)
  have h2: "fmlookup (entries cache_ab) (hashToken id ''a'') = Some entry_a"
    by (simp add: cache_ab_eq hashToken_id_a)
  from Set_overwrite_frame[OF h1 h2, of 3 "[''61'', ''62'']" result_userA None]
  show ?thesis by blast
qed

text \<open>
  Claim C8, as stated, fails on a cache built with a TTL of 0, in which Set returns at
  once: the lookup is a miss, the three calls succeed and Validate returns the identity,
  yet no entry is stored and a Get right after is a miss.
\<close>

theorem Validate_success_disabled_cache:
  "snd (snd (fst (Get id 1 ''a'' (New 0 2)))) = False \<and>
   fst (Validate (stub_validator (stub_client (Some user_a, False, None) None
                    ([team_platform, team_security, team_sre], None)) 1 2) ''a'' (New 0 2)) =
     Return (Some result_userA) None \<and>
   fmlookup (entries (fst (snd (Validate (stub_validator (stub_client (Some user_a, False, None)
                    None ([team_platform, team_security, team_sre], None)) 1 2) ''a''
                    (New 0 2))))) (hashToken id ''a'') = None \<and>
   fst (Get id 2 ''a'' (fst (snd (Validate (stub_validator (stub_client (Some user_a, False, None)
                    None ([team_platform, team_security, team_sre], None)) 1 2) ''a''
                    (New 0 2))))) = (zeroResult, None, False)"
  by (simp add: Validate_def stub_validator_def stub_client_def Cache_impl_def Get_def Set_def
        New_def result_userA_def user_a_def team_platform_def team_security_def team_sre_def)

text \<open>
  Claim C8, amended. Validate runs on the cache of cache.go with a positive TTL; its
  lookup of the token is a miss; GetUser succeeds, the token is not a rejected classic
  PAT, CheckOrgMembership succeeds, and ListUserTeams is that of HTTPClient, whose pages
  gave the teams \<open>allTeams\<close> without error. Then Validate returns an identity with the
  user's login, ID and email, with Org the configured organization, and with Teams the
  slugs of those teams of \<open>allTeams\<close> whose organization login equals the configured one
  under EqualFold, in the order of \<open>allTeams\<close>; the cache holds that identity for the
  token as a positive entry that expires a TTL after the time \<open>now_set\<close> of the Set, and
  a Get on the token at any time \<open>now'\<close> up to that expiry returns it with found = true.
\<close>

theorem Validate_success_identity:
  assumes impl: "cache v = Cache_impl Sum256 now_get now_set ks"
    and pos: "0 < ttl c"
    and miss: "snd (snd (fst (Get Sum256 now_get token c))) = False"
    and user: "GetUser (github v) token = (Some u, b, None)"
    and pat: "\<not> (rejectClassicPATs v \<and> b)"
    and member: "CheckOrgMembership (github v) token (org v) (User_Login u) = None"
    and pages: "ListUserTeams_loop (fetchTeamsPage token) 0
                  (baseURL @ ''/user/teams'' @ ''?per_page=100'') [] = Some (allTeams, None)"
    and http: "HTTPClient_ListUserTeams EqualFold baseURL fetchTeamsPage token (org v) =
                 Some (ListUserTeams (github v) token (org v))"
    and within: "now' \<le> now_set + ttl c"
  shows "\<exists>r. fst (Validate v token c) = Return (Some r) None \<and>
             Login r = User_Login u \<and> ID r = User_ID u \<and> Email r = User_Email u \<and>
             Org r = org v \<and>
             Teams r = map Slug (filter (\<lambda>t. EqualFold (Organization_Login (Organization t)) (org v))
                                   allTeams) \<and>
             fmlookup (entries (fst (snd (Validate v token c)))) (hashToken Sum256 token) =
               Some \<lparr>Result = r, Err = None, ExpiresAt = now_set + ttl c\<rparr> \<and>
             fst (Get Sum256 now' token (fst (snd (Validate v token c)))) = (r, None, True)"
proof -
  let ?teams = "filter (\<lambda>t. EqualFold (Organization_Login (Organization t)) (org v)) allTeams"
  let ?r = "\<lparr>Login = User_Login u, ID = User_ID u, Email = User_Email u,
              Org = org v, Teams = map Slug ?teams\<rparr>"
  let ?c1 = "snd (Get Sum256 now_get token c)"
  let ?c2 = "Set Sum256 now_set ks token ?r None ?c1"
  from impl have g: "cache_Get (cache v) = Get Sum256 now_get"
    and s: "cache_Set (cache v) = Set Sum256 now_set ks"
    by (simp_all add: Cache_impl_def)
  from miss g have miss': "snd (snd (fst (cache_Get (cache v) token c))) = False" by simp
  from pages have "HTTPClient_ListUserTeams EqualFold baseURL fetchTeamsPage token (org v) =
      Some (?teams, None)"
    by (simp add: HTTPClient_ListUserTeams_def)
  with http have teams: "ListUserTeams (github v) token (org v) = (?teams, None)" by simp
  from Validate_miss_ListUserTeams[OF miss' user pat member teams] g s
  have val: "Validate v token c =
      (Return (Some ?r) None, ?c2,
       [Call_GetUser token, Call_CheckOrgMembership token (org v) (User_Login u),
        Call_ListUserTeams token (org v)])" by simp
  have t1: "ttl ?c1 = ttl c" by (simp add: Get_state)
  with pos have nz1: "ttl ?c1 \<noteq> 0" by simp
  from Set_lookup_same[OF nz1, of Sum256 now_set ks token ?r None] t1
  have look: "fmlookup (entries ?c2) (hashToken Sum256 token) =
           Some \<lparr>Result = ?r, Err = None, ExpiresAt = now_set + ttl c\<rparr>"
    by simp
  from within t1 have "now' \<le> now_set + ttl ?c1" by simp
  from Get_after_Set[OF nz1 this, of Sum256 token ks ?r None]
  have get: "fst (Get Sum256 now' token ?c2) = (?r, None, True)" .
  show ?thesis
    by (rule exI[of _ ?r]) (simp add: val look get)
qed

theorem Validate_success_identity_witness:
  "fst (Validate (stub_validator (stub_client (Some user_a, False, None) None
                    ([team_platform, team_security, team_sre], None)) 1 2) ''a'' (New 10 2)) =
     Return (Some result_userA) None \<and>
   fst (Get id 12 ''a'' (fst (snd (Validate (stub_validator (stub_client (Some user_a, False, None)
                    None ([team_platform, team_security, team_sre], None)) 1 2) ''a''
                    (New 10 2))))) = (result_userA, None, True)"
proof -
  let ?v = "stub_validator (stub_client (Some user_a, False, None) None
              ([team_platform, team_security, team_sre], None)) 1 2"
  have pos: "0 < ttl (New 10 2)" by (simp add: New_def)
  have miss: "snd (snd (fst (Get id 1 ''a'' (New 10 2)))) = False"
    by (simp add: Get_New_miss)
  have user: "GetUser (github ?v) ''a'' = (Some user_a, False, None)"
    by (simp add: stub_validator_def stub_client_def)
  have pat: "\<not> (rejectClassicPATs ?v \<and> False)" by simp
  have member: "CheckOrgMembership (github ?v) ''a'' (org ?v) (User_Login user_a) = None"
    by (simp add: stub_validator_def stub_client_def)
  have pages: "ListUserTeams_loop (two_pages ''a'') 0
                 (''api'' @ ''/user/teams'' @ ''?per_page=100'') [] =
               Some ([team_platform, team_docs, team_security, team_sre], None)"
    by (simp add: two_pages_loop)
  have http: "HTTPClient_ListUserTeams ascii_EqualFold ''api'' two_pages ''a'' (org ?v) =
                Some (ListUserTeams (github ?v) ''a'' (org ?v))"
    by (simp add: stub_validator_def stub_client_def two_pages_HTTPClient)
  have within: "(12::int) \<le> 2 + ttl (New 10 2)" by (simp add: New_def)
  from Validate_success_identity
         [OF stub_validator_impl pos miss user pat member pages http within]
  obtain r where r: "fst (Validate ?v ''a'' (New 10 2)) = Return (Some r) None"
    "Login r = User_Login user_a" "ID r = User_ID user_a" "Email r = User_Email user_a"
    "Org r = org ?v"
    "Teams r = map Slug (filter (\<lambda>t. ascii_EqualFold (Organization_Login (Organization t)) (org ?v))
                           [team_platform, team_docs, team_security, team_sre])"
    "fst (Get id 12 ''a'' (fst (snd (Validate ?v ''a'' (New 10 2))))) = (r, None, True)"
    by blast
  from r(2-6) have "r = result_userA"
    by (simp add: result_userA_def user_a_def stub_validator_def ascii_EqualFold_def
          ascii_lower_def team_platform_def team_docs_def team_security_def team_sre_def)
  with r(1,7) show ?thesis by simp
qed

text \<open>
  Claim C9, as stated, fails at the boundary: the entry of \<open>cache_a\<close> has an ExpiresAt
  of 10, which is \<open>\<le>\<close> the time 10 of the tick, and the tick leaves it in the map.
\<close>

theorem sweep_keeps_boundary_entry:
  "0 < ttl cache_a \<and> range_order [''61''] (entries cache_a) \<and>
   fmlookup (entries cache_a) ''61'' = Some entry_a \<and> ExpiresAt entry_a \<le> 10 \<and>
   fmlookup (entries (cleanupLoop [Tick 10 [''61'']] cache_a)) ''61'' = Some entry_a"
  by (simp add: range_order_a) (simp add: cache_a_eq entry_a_def removeExpired_def)

text \<open>
  Claim C9, amended. In a cache with a positive TTL, a tick of the clean-up loop at time
  \<open>now\<close>, ranging over the map in any order, removes exactly the entries whose ExpiresAt
  is before \<open>now\<close>: afterwards a key has no entry if it had none or had one with
  ExpiresAt < now, and has its old entry otherwise, so an entry whose ExpiresAt is
  \<open>now\<close> or later stays.
\<close>

theorem sweep_removes_strictly_expired:
  assumes "0 < ttl c" and "range_order ks (entries c)"
  shows "fmlookup (entries (cleanupLoop [Tick now ks] c)) k =
           (case fmlookup (entries c) k of
              None \<Rightarrow> None
            | Some e \<Rightarrow> if ExpiresAt e < now then None else Some e)"
  using assms(2)
  by (auto simp: removeExpired_def removeExpired_loop_lookup range_order_def fmlookup_dom'_iff
           split: option.splits)

theorem sweep_removes_strictly_expired_witness:
  "fmlookup (entries (cleanupLoop [Tick 11 [''61'', ''62'']] cache_ab)) ''61'' = None \<and>
   fmlookup (entries (cleanupLoop [Tick 11 [''61'', ''62'']] cache_ab)) ''62'' = Some entry_b"
proof -
  have h1: "0 < ttl cache_ab" by (simp add: cache_ab_eq)
  from sweep_removes_strictly_expired[OF h1 range_order_ab, of 11 "''61''"]
       sweep_removes_strictly_expired[OF h1 range_order_ab, of 11 "''62''"]
  show ?thesis by (simp add: cache_ab_eq entry_a_def entry_b_def)
qed

text \<open>
  Claim C10. In a cache with a positive TTL, take a token whose key has the entry \<open>e\<close>.
  A Get at time \<open>now\<close> is a miss if ExpiresAt e < now and otherwise a hit returning the
  entry; a sweep at time \<open>now\<close>, in any order, removes the entry if ExpiresAt e < now
  and otherwise keeps it. So at the time ExpiresAt e itself the Get is still a hit and
  the sweep still keeps the entry: it is expired only strictly after its ExpiresAt.
\<close>

theorem expiry_strict_at_boundary:
  assumes "0 < ttl c" and "fmlookup (entries c) (hashToken Sum256 token) = Some e"
    and "range_order ks (entries c)"
  shows "fst (Get Sum256 now token c) =
           (if ExpiresAt e < now then (zeroResult, None, False) else (Result e, Err e, True)) \<and>
         fmlookup (entries (removeExpired now ks c)) (hashToken Sum256 token) =
           (if ExpiresAt e < now then None else Some e) \<and>
         fst (Get Sum256 (ExpiresAt e) token c) = (Result e, Err e, True) \<and>
         fmlookup (entries (removeExpired (ExpiresAt e) ks c)) (hashToken Sum256 token) = Some e"
  using assms
  by (auto simp: Get_def removeExpired_def removeExpired_loop_lookup range_order_def
                 fmlookup_dom'_iff)

theorem expiry_strict_at_boundary_witness:
  "fst (Get id 10 ''a'' cache_a) = (zeroResult, None, True) \<and>
   fmlookup (entries (removeExpired 10 [''61''] cache_a)) (hashToken id ''a'') = Some entry_a \<and>
   fst (Get id 11 ''a'' cache_a) = (zeroResult, None, False) \<and>
   fmlookup (entries (removeExpired 11 [''61''] cache_a)) (hashToken id ''a'') = None"
proof -
  have h1: "0 < ttl cache_a" by (simp add: cache_a_eq)
  have h2: "fmlookup (entries cache_a) (hashToken id ''a'') = Some entry_a"
    by (simp add: cache_a_eq hashToken_id_a)
  from expiry_strict_at_boundary[OF h1 h2 range_order_a, of 10]
       expiry_strict_at_boundary[OF h1 h2 range_order_a, of 11]
  show ?thesis by (simp add: entry_a_def)
qed

end
